theory Spec2Isabelle
  imports Main "HOL-Library.AList"
begin

section \<open>Strings\<close>

text \<open>
  Go strings are byte sequences, modelled as \<open>string\<close>. The functions of the Go
  standard library that \<^verbatim>\<open>flags.go\<close> calls are written out here. \<open>ToLower\<close> maps
  the ASCII capitals only (the library also maps capitals outside ASCII).
\<close>

definition ToLower :: "string \<Rightarrow> string" where
  "ToLower s =
     map (\<lambda>c. case map_of (zip ''ABCDEFGHIJKLMNOPQRSTUVWXYZ'' ''abcdefghijklmnopqrstuvwxyz'') c of
                 Some l \<Rightarrow> l | None \<Rightarrow> c) s"

definition HasPrefix :: "string \<Rightarrow> char \<Rightarrow> bool" where
  "HasPrefix s p = (case s of [] \<Rightarrow> False | c # _ \<Rightarrow> c = p)"

text \<open>\<^verbatim>\<open>strings.Split(s, sep)\<close> for a one-byte separator: the empty string gives one empty part.\<close>

fun Split :: "char \<Rightarrow> string \<Rightarrow> string list" where
  "Split sep [] = [] # []"
| "Split sep (c # cs) =
     (if c = sep then [] # Split sep cs
      else (case Split sep cs of p # ps \<Rightarrow> (c # p) # ps | [] \<Rightarrow> (c # []) # []))"

text \<open>\<^verbatim>\<open>strings.SplitN(s, sep, 2)\<close>: cut at the first separator, if there is one.\<close>

definition SplitN2 :: "char \<Rightarrow> string \<Rightarrow> string list" where
  "SplitN2 sep s =
     (if sep \<in> set s
      then [takeWhile (\<lambda>c. c \<noteq> sep) s, tl (dropWhile (\<lambda>c. c \<noteq> sep) s)]
      else [s])"

text \<open>\<^verbatim>\<open>strings.Replace(s, "  ", " ", -1)\<close>: non-overlapping pairs of blanks, left to right.\<close>

fun ReplaceBlanks :: "string \<Rightarrow> string" where
  "ReplaceBlanks (a # b # cs) =
     (if a = CHR '' '' \<and> b = CHR '' '' then CHR '' '' # ReplaceBlanks cs
      else a # ReplaceBlanks (b # cs))"
| "ReplaceBlanks cs = cs"

text \<open>\<^verbatim>\<open>strconv.ParseBool\<close>.\<close>

definition ParseBool :: "string \<Rightarrow> bool option" where
  "ParseBool s =
     (if s \<in> set [''1'', ''t'', ''T'', ''TRUE'', ''true'', ''True''] then Some True
      else if s \<in> set [''0'', ''f'', ''F'', ''FALSE'', ''false'', ''False''] then Some False
      else None)"

text \<open>
  \<^verbatim>\<open>strconv.ParseInt(s, 10, 64)\<close>: an optional sign, at least one decimal digit, and the
  value within 64 bits. The flag package parses with base 0, which also takes the
  prefixes \<^verbatim>\<open>0x\<close>, \<^verbatim>\<open>0o\<close>, \<^verbatim>\<open>0b\<close>; that part is left out, an integer flag is read in
  decimal here.
\<close>

definition digit_of :: "char \<Rightarrow> int option" where
  "digit_of c = map_of (zip ''0123456789'' [0, 1, 2, 3, 4, 5, 6, 7, 8, 9]) c"

fun digits_value :: "int \<Rightarrow> string \<Rightarrow> int option" where
  "digits_value acc [] = Some acc"
| "digits_value acc (c # cs) =
     (case digit_of c of None \<Rightarrow> None | Some d \<Rightarrow> digits_value (acc * 10 + d) cs)"

definition ParseInt :: "string \<Rightarrow> int option" where
  "ParseInt s =
     (let (neg, ds) = (case s of c # cs \<Rightarrow> if c = CHR ''-'' then (True, cs)
                                           else if c = CHR ''+'' then (False, cs)
                                           else (False, s)
                        | [] \<Rightarrow> (False, s))
      in if ds = [] then None
         else (case digits_value 0 ds of
                 None \<Rightarrow> None
               | Some n \<Rightarrow> (let v = (if neg then - n else n)
                            in if - (2 ^ 63) \<le> v \<and> v < 2 ^ 63 then Some v else None)))"

section \<open>Reflected values\<close>

text \<open>
  The struct tag of a field, read by \<^verbatim>\<open>tag.Get\<close>; an absent key reads as the empty string.
\<close>

record field_tag =
  tag_flag :: string
  tag_usage :: string
  tag_env :: string
  tag_validate :: string

text \<open>
  A \<^verbatim>\<open>reflect.Value\<close>: a value together with its type. A struct carries the name of its
  type (the identity of its \<^verbatim>\<open>reflect.Type\<close>) and its fields in declaration order,
  each with its tag. Slices and maps that are not \<^verbatim>\<open>[]string\<close> and
  \<^verbatim>\<open>map[string]string\<close> keep only what the code looks at: their kind, and for a map
  whether the key is of string kind. A nil and an empty slice or map are not told apart.
\<close>

datatype val =
    VString string
  | VBool bool
  | VInt int
  | VInt64 int
  | VStringSlice "string list"
  | VOtherSlice
  | VStringMap "(string \<times> string) list"
  | VOtherStringMap
  | VOtherMap
  | VStruct string "(field_tag \<times> val) list"
  | VInterface string
  | VOther string

datatype kind = KString | KBool | KInt | KInt64 | KSlice | KMap | KStruct | KInterface | KOther

fun Kind :: "val \<Rightarrow> kind" where
  "Kind (VString _) = KString"
| "Kind (VBool _) = KBool"
| "Kind (VInt _) = KInt"
| "Kind (VInt64 _) = KInt64"
| "Kind (VStringSlice _) = KSlice"
| "Kind VOtherSlice = KSlice"
| "Kind (VStringMap _) = KMap"
| "Kind VOtherStringMap = KMap"
| "Kind VOtherMap = KMap"
| "Kind (VStruct _ _) = KStruct"
| "Kind (VInterface _) = KInterface"
| "Kind (VOther _) = KOther"

text \<open>The identity of a value's type, as far as \<^verbatim>\<open>==\<close> on \<^verbatim>\<open>reflect.Type\<close> tells types apart.\<close>

datatype ty =
    TString | TBool | TInt | TInt64 | TStringSlice | TOtherSlice | TStringMap
  | TOtherStringMap | TOtherMap | TStruct string | TInterface string | TOther string

fun Type :: "val \<Rightarrow> ty" where
  "Type (VString _) = TString"
| "Type (VBool _) = TBool"
| "Type (VInt _) = TInt"
| "Type (VInt64 _) = TInt64"
| "Type (VStringSlice _) = TStringSlice"
| "Type VOtherSlice = TOtherSlice"
| "Type (VStringMap _) = TStringMap"
| "Type VOtherStringMap = TOtherStringMap"
| "Type VOtherMap = TOtherMap"
| "Type (VStruct n _) = TStruct n"
| "Type (VInterface n) = TInterface n"
| "Type (VOther n) = TOther n"

text \<open>\<^verbatim>\<open>reflect.New(ft).Elem()\<close>: the zero value of the type of a value.\<close>

fun zero :: "val \<Rightarrow> val" where
  "zero (VString _) = VString []"
| "zero (VBool _) = VBool False"
| "zero (VInt _) = VInt 0"
| "zero (VInt64 _) = VInt64 0"
| "zero (VStringSlice _) = VStringSlice []"
| "zero (VStringMap _) = VStringMap []"
| "zero (VStruct n fs) = VStruct n (map (\<lambda>(t, v). (t, zero v)) fs)"
| "zero v = v"

section \<open>Failures\<close>

text \<open>
  A panic unwinds the caller; an error is returned. \<open>ExpectedPtr\<close>, \<open>CycleFound\<close> and
  \<open>InvalidPositionalArgs\<close>, \<open>ExpectedStructOrSlice\<close>, \<open>NoName\<close> are the panics of
  \<^verbatim>\<open>flags.go\<close> itself; \<open>FlagRedefined\<close> is raised by the flag package on a second flag
  of one name, \<open>ReflectPanic\<close> by \<^verbatim>\<open>reflect\<close> (\<^verbatim>\<open>NumField\<close> on a value that is no struct,
  \<^verbatim>\<open>Set\<close> with a value that cannot be assigned), \<open>IndexOutOfRange\<close> by the runtime.
\<close>

datatype panic =
    ExpectedPtr
  | CycleFound ty
  | FlagRedefined string
  | ReflectPanic
  | IndexOutOfRange
  | InvalidPositionalArgs
  | ExpectedStructOrSlice
  | NoName

datatype err =
    ErrHelp
  | NotDefined string
  | BadFlagSyntax string
  | NeedsArgument string
  | InvalidValue string string
  | CouldNotOpen
  | CouldNotRead
  | SetenvFailed

datatype failure = Panic panic | Error err

section \<open>The flag package\<close>

text \<open>
  The values a \<^verbatim>\<open>flag.FlagSet\<close> holds: the three kinds the package brings, and the two
  of \<^verbatim>\<open>flags.go\<close>, \<^verbatim>\<open>stringArray\<close> and \<^verbatim>\<open>stringMap\<close> (a list of entries, key and value).
\<close>

type_synonym stringMapEntry = "string \<times> string"

datatype flagValue =
    stringValue string
  | boolValue bool
  | intValue int
  | stringArray "string list"
  | stringMap "stringMapEntry list"

text \<open>\<^verbatim>\<open>stringArray.Set\<close> and \<^verbatim>\<open>stringMap.Set\<close> (lines 1194 and 1218).\<close>

definition stringArray_Set :: "string list \<Rightarrow> string \<Rightarrow> string list" where
  "stringArray_Set sa v = sa @ Split CHR '','' v"

definition stringMap_entry :: "string \<Rightarrow> stringMapEntry" where
  "stringMap_entry e =
     (let kv = SplitN2 CHR ''='' e
      in if length kv = 1 then (kv ! 0, []) else (kv ! 0, kv ! 1))"

definition stringMap_Set :: "stringMapEntry list \<Rightarrow> string \<Rightarrow> stringMapEntry list" where
  "stringMap_Set sm v = sm @ map stringMap_entry (Split CHR '','' v)"

text \<open>\<^verbatim>\<open>Value.Set\<close> of each kind of flag; \<open>None\<close> is a value that does not parse.\<close>

fun Value_Set :: "flagValue \<Rightarrow> string \<Rightarrow> flagValue option" where
  "Value_Set (stringValue _) v = Some (stringValue v)"
| "Value_Set (boolValue _) v = map_option boolValue (ParseBool v)"
| "Value_Set (intValue _) v = map_option intValue (ParseInt v)"
| "Value_Set (stringArray sa) v = Some (stringArray (stringArray_Set sa v))"
| "Value_Set (stringMap sm) v = Some (stringMap (stringMap_Set sm v))"

text \<open>The formal flags of a flag set, by name, in the order of their definition.\<close>

type_synonym FlagSet = "(string \<times> flagValue) list"

text \<open>
  \<^verbatim>\<open>FlagSet.Var\<close>: defining a name twice panics. (Later versions of the package also
  refuse a name that starts with \<^verbatim>\<open>-\<close> or holds \<^verbatim>\<open>=\<close>; that is left out.)
\<close>

definition Var :: "FlagSet \<Rightarrow> string \<Rightarrow> flagValue \<Rightarrow> failure + FlagSet" where
  "Var fs name v =
     (if map_of fs name \<noteq> None then Inl (Panic (FlagRedefined name))
      else Inr (fs @ [(name, v)]))"

text \<open>
  \<^verbatim>\<open>FlagSet.Parse\<close>, that is \<^verbatim>\<open>parseOne\<close> until it stops: a token that is shorter than
  two bytes or does not start with \<^verbatim>\<open>-\<close> ends the flags and stays in the rest; \<^verbatim>\<open>--\<close>
  ends them and is dropped. One or two dashes are the same. A name is cut at its first
  \<^verbatim>\<open>=\<close> after the first byte. A boolean flag never takes the next token as its value.
\<close>

definition flag_name :: "string \<Rightarrow> string" where
  "flag_name s = (if length s \<ge> 2 \<and> s ! 1 = CHR ''-'' then drop 2 s else drop 1 s)"

definition cut_value :: "string \<Rightarrow> string \<times> string option" where
  "cut_value name =
     (case name of
        [] \<Rightarrow> ([], None)
      | c # cs \<Rightarrow>
          if CHR ''='' \<in> set cs
          then (c # takeWhile (\<lambda>x. x \<noteq> CHR ''='') cs,
                Some (tl (dropWhile (\<lambda>x. x \<noteq> CHR ''='') cs)))
          else (name, None))"

fun is_boolFlag :: "flagValue \<Rightarrow> bool" where
  "is_boolFlag (boolValue _) = True"
| "is_boolFlag _ = False"

fun Parse :: "FlagSet \<Rightarrow> string list \<Rightarrow> err + (FlagSet \<times> string list)" where
  "Parse fs [] = Inr (fs, [])"
| "Parse fs (s # rest) =
     (if length s < 2 \<or> hd s \<noteq> CHR ''-'' then Inr (fs, s # rest)
      else if s = ''--'' then Inr (fs, rest)
      else if flag_name s = [] \<or> hd (flag_name s) = CHR ''-'' \<or> hd (flag_name s) = CHR ''=''
      then Inl (BadFlagSyntax s)
      else
        (case cut_value (flag_name s) of (name, hasValue) \<Rightarrow>
          (case map_of fs name of
             None \<Rightarrow> if name = ''help'' \<or> name = ''h'' then Inl ErrHelp else Inl (NotDefined name)
           | Some fv \<Rightarrow>
               if is_boolFlag fv then
                 (case Value_Set fv (case hasValue of Some v \<Rightarrow> v | None \<Rightarrow> ''true'') of
                    None \<Rightarrow> Inl (InvalidValue (case hasValue of Some v \<Rightarrow> v | None \<Rightarrow> ''true'') name)
                  | Some fv' \<Rightarrow> Parse (AList.update name fv' fs) rest)
               else
                 (case hasValue of
                    Some v \<Rightarrow>
                      (case Value_Set fv v of
                         None \<Rightarrow> Inl (InvalidValue v name)
                       | Some fv' \<Rightarrow> Parse (AList.update name fv' fs) rest)
                  | None \<Rightarrow>
                      (case rest of
                         [] \<Rightarrow> Inl (NeedsArgument name)
                       | v # rest' \<Rightarrow>
                           (case Value_Set fv v of
                              None \<Rightarrow> Inl (InvalidValue v name)
                            | Some fv' \<Rightarrow> Parse (AList.update name fv' fs) rest'))))))"

section \<open>The schema walk\<close>

text \<open>
  \<^verbatim>\<open>flags.go\<close> holds two copies of the package, an earlier one (lines 1 to 611) and the
  current one (from line 612), which adds positional arguments. Where a function is the
  same in both but for one line, it is modelled once, with the copy as a parameter.
\<close>

datatype revision = Earlier | Current

text \<open>The process environment, read by \<^verbatim>\<open>os.LookupEnv\<close> and written by \<^verbatim>\<open>os.Setenv\<close>.\<close>

type_synonym environ = "(string \<times> string) list"

text \<open>
  \<^verbatim>\<open>flagInfo\<close>. Its \<^verbatim>\<open>set\<close> closure writes the parsed value of the flag of this name
  into the field of the destination it captured; \<open>set_field\<close> is where that field is,
  the field indices from the destination down.
\<close>

record flagInfo =
  name :: string
  usage :: string
  env :: string
  validate :: string
  set_field :: "nat list"

text \<open>\<^verbatim>\<open>readPositionalArg\<close> (line 1251).\<close>

definition readPositionalArg :: "string \<Rightarrow> string" where
  "readPositionalArg arg =
     (if length arg > 2 \<and> hd arg = CHR ''['' \<and> last arg = CHR '']'' then butlast (tl arg)
      else [])"

text \<open>\<^verbatim>\<open>readFlagInfo\<close> (lines 412 and 1036), on the tag of field \<open>i\<close>.\<close>

definition readFlagInfo :: "field_tag \<Rightarrow> string \<Rightarrow> flagInfo option" where
  "readFlagInfo tag prefix =
     (let flagTag = Split CHR '','' (tag_flag tag)
      in if flagTag ! 0 = [] then None
         else Some \<lparr>name = prefix @ flagTag ! 0, usage = tag_usage tag, env = tag_env tag,
                    validate = tag_validate tag, set_field = []\<rparr>)"

text \<open>
  \<^verbatim>\<open>flagInfo.readEnv\<close> (lines 381 and 1005). The argument is what \<^verbatim>\<open>valuePtr\<close> points
  to; the result is what it points to afterwards, and the boolean returned. The switch
  is on the kind of the pointee, and has the cases \<^verbatim>\<open>reflect.String\<close>,
  \<^verbatim>\<open>reflect.Bool\<close> and \<^verbatim>\<open>reflect.Int\<close>.
\<close>

definition readEnv :: "flagInfo \<Rightarrow> environ \<Rightarrow> val \<Rightarrow> val \<times> bool" where
  "readEnv fi ev pointee =
     (if env fi = [] then (pointee, False)
      else (case map_of ev (env fi) of
              None \<Rightarrow> (pointee, False)
            | Some envValue \<Rightarrow>
                (case Kind pointee of
                   KString \<Rightarrow> (VString envValue, True)
                 | KBool \<Rightarrow> (case ParseBool envValue of
                               None \<Rightarrow> (pointee, False)
                             | Some truthy \<Rightarrow> (VBool truthy, True))
                 | KInt \<Rightarrow> (case ParseInt envValue of
                              None \<Rightarrow> (pointee, False)
                            | Some integer \<Rightarrow> (VInt integer, True))
                 | _ \<Rightarrow> (pointee, False))))"

text \<open>
  The leaf cases of the switch of \<^verbatim>\<open>collectStructFlags\<close> (lines 1132 to 1171): the flag
  value a field is registered with, or \<open>None\<close> where the loop continues without a flag.
  \<^item> String and bool: \<^verbatim>\<open>df\<close> is the default, \<^verbatim>\<open>readEnv(&df)\<close> may replace it.
  \<^item> Int: \<^verbatim>\<open>df := defaults.Field(i).Int()\<close> is an \<^verbatim>\<open>int64\<close>, so \<^verbatim>\<open>readEnv\<close> is given a
    pointer to an \<^verbatim>\<open>int64\<close>; the flag is registered with \<^verbatim>\<open>int(df)\<close>.
  \<^item> Map: a key that is not of string kind continues; otherwise an empty \<^verbatim>\<open>stringMap\<close>.
  \<^item> Slice: an empty \<^verbatim>\<open>stringArray\<close>.
\<close>

fun the_int64 :: "val \<Rightarrow> int" where
  "the_int64 (VInt64 n) = n"
| "the_int64 _ = 0"

fun the_bool :: "val \<Rightarrow> bool" where
  "the_bool (VBool b) = b"
| "the_bool _ = False"

fun the_string :: "val \<Rightarrow> string" where
  "the_string (VString s) = s"
| "the_string _ = []"

fun leaf_flag :: "flagInfo \<Rightarrow> environ \<Rightarrow> val \<Rightarrow> flagValue option" where
  "leaf_flag info ev (VString s) = Some (stringValue (the_string (fst (readEnv info ev (VString s)))))"
| "leaf_flag info ev (VBool b) = Some (boolValue (the_bool (fst (readEnv info ev (VBool b)))))"
| "leaf_flag info ev (VInt n) = Some (intValue (the_int64 (fst (readEnv info ev (VInt64 n)))))"
| "leaf_flag info ev (VStringMap _) = Some (stringMap [])"
| "leaf_flag info ev VOtherStringMap = Some (stringMap [])"
| "leaf_flag info ev VOtherMap = None"
| "leaf_flag info ev (VStringSlice _) = Some (stringArray [])"
| "leaf_flag info ev VOtherSlice = Some (stringArray [])"
| "leaf_flag info ev _ = None"

text \<open>
  What \<^verbatim>\<open>focus\<close> is, as far as the walk looks at it: a pointer to a value of some type
  at some place of the destination, or no pointer at all.
\<close>

datatype focus = Ptr ty "nat list" | NotPtr

text \<open>
  \<^verbatim>\<open>collectStructFlags\<close> (lines 445 and 1117). The two copies differ in line 1127 only,
  where the current one also continues when \<^verbatim>\<open>readPositionalArg(info.name) == ""\<close>.
  \<open>collectFields\<close> is the loop over the fields, from field \<open>i\<close> on. The kind of
  \<^verbatim>\<open>fieldValue\<close> is the kind of the same field of \<^verbatim>\<open>defaults\<close>, the types being equal
  by the check of line 1118. \<^verbatim>\<open>seen\<close> is the map the calls share, handed on and
  returned. The results are the flag set, the flags collected, and \<^verbatim>\<open>seen\<close>.
\<close>

fun collectStructFlags ::
    "revision \<Rightarrow> environ \<Rightarrow> FlagSet \<Rightarrow> flagInfo list \<Rightarrow> string \<Rightarrow> val \<Rightarrow> focus \<Rightarrow> ty set
      \<Rightarrow> failure + (FlagSet \<times> flagInfo list \<times> ty set)"
  and collectFields ::
    "revision \<Rightarrow> environ \<Rightarrow> FlagSet \<Rightarrow> flagInfo list \<Rightarrow> string \<Rightarrow> (field_tag \<times> val) list
      \<Rightarrow> nat \<Rightarrow> nat list \<Rightarrow> ty set \<Rightarrow> failure + (FlagSet \<times> flagInfo list \<times> ty set)"
where
  "collectStructFlags r ev fs collected prefix defaults NotPtr seen = Inl (Panic ExpectedPtr)"
| "collectStructFlags r ev fs collected prefix defaults (Ptr t at) seen =
     (if t \<noteq> Type defaults then Inl (Panic ExpectedPtr)
      else if t \<in> seen then Inl (Panic (CycleFound t))
      else (case defaults of
              VStruct n flds \<Rightarrow>
                (case collectFields r ev fs collected prefix flds 0 at (insert t seen) of
                   Inl e \<Rightarrow> Inl e
                 | Inr (fs', collected', seen') \<Rightarrow> Inr (fs', collected', seen' - {t}))
            | _ \<Rightarrow> Inl (Panic ReflectPanic)))"
| "collectFields r ev fs collected prefix [] i at seen = Inr (fs, collected, seen)"
| "collectFields r ev fs collected prefix ((tag, dv) # rest) i at seen =
     (case readFlagInfo tag prefix of
        None \<Rightarrow> collectFields r ev fs collected prefix rest (Suc i) at seen
      | Some info \<Rightarrow>
          if r = Current \<and> readPositionalArg (name info) = []
          then collectFields r ev fs collected prefix rest (Suc i) at seen
          else if Kind dv = KStruct \<or> Kind dv = KInterface
          then (case collectStructFlags r ev fs collected
                       (if name info \<noteq> ''-'' then name info @ ''.'' else []) dv
                       (Ptr (Type dv) (at @ [i])) seen of
                  Inl e \<Rightarrow> Inl e
                | Inr (fs', collected', seen') \<Rightarrow>
                    collectFields r ev fs' collected' prefix rest (Suc i) at seen')
          else (case leaf_flag info ev dv of
                  None \<Rightarrow> collectFields r ev fs collected prefix rest (Suc i) at seen
                | Some fv \<Rightarrow>
                    (case Var fs (name info) fv of
                       Inl e \<Rightarrow> Inl e
                     | Inr fs' \<Rightarrow>
                         collectFields r ev fs' (collected @ [info\<lparr>set_field := at @ [i]\<rparr>])
                           prefix rest (Suc i) at seen)))"

section \<open>Filling the destination\<close>

text \<open>
  The map a \<^verbatim>\<open>stringMap\<close> is turned into by the \<^verbatim>\<open>set\<close> closure of a map field
  (lines 1159 to 1165): one pass over the entries, each assigned to its key.
\<close>

definition build_map :: "stringMapEntry list \<Rightarrow> (string \<times> string) list" where
  "build_map sm = foldl (\<lambda>m e. AList.update (fst e) (snd e) m) [] sm"

text \<open>
  What a \<^verbatim>\<open>set\<close> closure stores in its field, given the flag's value and the field as
  it is: \<^verbatim>\<open>SetString\<close>, \<^verbatim>\<open>SetBool\<close>, \<^verbatim>\<open>SetInt\<close>, or \<^verbatim>\<open>Set\<close>, which panics when the
  field's type is not the type of the map or the slice built.
\<close>

fun assign :: "flagValue \<Rightarrow> val \<Rightarrow> failure + val" where
  "assign (stringValue s) (VString _) = Inr (VString s)"
| "assign (boolValue b) (VBool _) = Inr (VBool b)"
| "assign (intValue n) (VInt _) = Inr (VInt n)"
| "assign (stringMap sm) (VStringMap _) = Inr (VStringMap (build_map sm))"
| "assign (stringArray arr) (VStringSlice _) = Inr (VStringSlice arr)"
| "assign _ _ = Inl (Panic ReflectPanic)"

text \<open>Changing the field at a place of a struct value.\<close>

fun update_at :: "nat list \<Rightarrow> (val \<Rightarrow> failure + val) \<Rightarrow> val \<Rightarrow> failure + val" where
  "update_at [] f v = f v"
| "update_at (i # p) f (VStruct n flds) =
     (if i < length flds
      then (case update_at p f (snd (flds ! i)) of
              Inl e \<Rightarrow> Inl e
            | Inr v' \<Rightarrow> Inr (VStruct n (flds[i := (fst (flds ! i), v')])))
      else Inl (Panic ReflectPanic))"
| "update_at (i # p) f v = Inl (Panic ReflectPanic)"

text \<open>Reading the field at a place of a struct value.\<close>

fun field_at :: "nat list \<Rightarrow> val \<Rightarrow> val option" where
  "field_at [] v = Some v"
| "field_at (i # p) (VStruct n flds) =
     (if i < length flds then field_at p (snd (flds ! i)) else None)"
| "field_at (i # p) v = None"

definition run_set :: "FlagSet \<Rightarrow> flagInfo \<Rightarrow> val \<Rightarrow> failure + val" where
  "run_set fs f a =
     (case map_of fs (name f) of
        None \<Rightarrow> Inr a
      | Some fv \<Rightarrow> update_at (set_field f) (assign fv) a)"

text \<open>The closures in the order given, each on the destination the one before left.\<close>

fun run_sets :: "FlagSet \<Rightarrow> flagInfo list \<Rightarrow> val \<Rightarrow> failure + val" where
  "run_sets fs [] a = Inr a"
| "run_sets fs (f # flags) a =
     (case run_set fs f a of Inl e \<Rightarrow> Inl e | Inr a' \<Rightarrow> run_sets fs flags a')"

text \<open>
  \<^verbatim>\<open>flagSet.UnmarshalFlags\<close> (lines 427 and 1052): walk, parse, then the \<^verbatim>\<open>set\<close>
  closures from the last flag collected to the first. The destination \<^verbatim>\<open>a\<close> is a
  pointer to a value, or something else; the result is the tokens left and the
  destination as filled.
\<close>

datatype dest = PtrTo val | NoPtr

definition UnmarshalFlags ::
    "revision \<Rightarrow> environ \<Rightarrow> val \<Rightarrow> string list \<Rightarrow> dest \<Rightarrow> failure + (string list \<times> val)" where
  "UnmarshalFlags r ev defaults args a =
     (case collectStructFlags r ev [] [] [] defaults
             (case a of PtrTo v \<Rightarrow> Ptr (Type v) [] | NoPtr \<Rightarrow> NotPtr) {} of
        Inl e \<Rightarrow> Inl e
      | Inr (fs, flags, seen) \<Rightarrow>
          (case Parse fs args of
             Inl e \<Rightarrow> Inl (Error e)
           | Inr (fs', rest) \<Rightarrow>
               (case a of
                  NoPtr \<Rightarrow> Inl (Panic ExpectedPtr)
                | PtrTo v \<Rightarrow>
                    (case run_sets fs' (rev flags) v of
                       Inl e \<Rightarrow> Inl e
                     | Inr v' \<Rightarrow> Inr (rest, v')))))"

section \<open>Positional arguments\<close>

text \<open>
  The inner loop of \<^verbatim>\<open>fillPositionalArgs\<close> (lines 1091 to 1111): the first field, from
  field \<open>i\<close> on, whose flag name reads as the positional argument \<open>argName\<close> and whose
  kind is string or slice. A field of that name and another kind is passed over.
\<close>

fun find_field :: "string \<Rightarrow> (field_tag \<times> val) list \<Rightarrow> nat \<Rightarrow> (nat \<times> val) option" where
  "find_field argName [] i = None"
| "find_field argName ((tag, v) # rest) i =
     (case readFlagInfo tag [] of
        None \<Rightarrow> find_field argName rest (Suc i)
      | Some info \<Rightarrow>
          if readPositionalArg (name info) \<noteq> argName then find_field argName rest (Suc i)
          else if Kind v = KString \<or> Kind v = KSlice then Some (i, v)
          else find_field argName rest (Suc i))"

text \<open>
  The outer loop (lines 1087 to 1114), over the names still to bind; \<open>n\<close> is the number
  of all names and \<open>pos\<close> the tokens bound so far. A string field takes the token at
  \<open>pos\<close> and the loop goes on; a slice field takes all tokens from \<open>pos\<close> on and the
  function returns no rest; a name without a field ends the loop.
\<close>

fun fill :: "string list \<Rightarrow> nat \<Rightarrow> nat \<Rightarrow> string \<Rightarrow> (field_tag \<times> val) list \<Rightarrow> string list
              \<Rightarrow> failure + (string list \<times> val)" where
  "fill [] pos n tn flds argsAfterFlags = Inr (drop pos argsAfterFlags, VStruct tn flds)"
| "fill (argName # names) pos n tn flds argsAfterFlags =
     (if int pos > int n - 1 \<or> int pos > int (length argsAfterFlags) - 1
      then Inr (drop pos argsAfterFlags, VStruct tn flds)
      else (case find_field argName flds 0 of
              None \<Rightarrow> Inr (drop pos argsAfterFlags, VStruct tn flds)
            | Some (i, v) \<Rightarrow>
                if Kind v = KString
                then fill names (Suc pos) n tn
                       (flds[i := (fst (flds ! i), VString (argsAfterFlags ! pos))]) argsAfterFlags
                else if v = VOtherSlice then Inl (Panic ReflectPanic)
                else Inr ([], VStruct tn
                            (flds[i := (fst (flds ! i), VStringSlice (drop pos argsAfterFlags))]))))"

text \<open>\<^verbatim>\<open>fillPositionalArgs\<close> (line 1074).\<close>

definition fillPositionalArgs :: "string list \<Rightarrow> dest \<Rightarrow> string list \<Rightarrow> failure + (string list \<times> val)" where
  "fillPositionalArgs positionalArgs v argsAfterFlags =
     (case v of
        PtrTo (VStruct tn flds) \<Rightarrow> fill positionalArgs 0 (length positionalArgs) tn flds argsAfterFlags
      | _ \<Rightarrow> Inl (Panic ExpectedPtr))"

section \<open>Commands\<close>

text \<open>
  A command has a name (with its positional arguments after it), a usage text, its
  default flags (nil, or a value) and the function it executes, which is named here,
  not run. A group has a name, a usage text and its commands.
\<close>

datatype ICommand =
    Command string string "val option" string
  | CommandGroup string string "ICommand list"

text \<open>\<^verbatim>\<open>command.Name\<close> (line 1246) and \<^verbatim>\<open>commandGroup.Name\<close> (line 1288).\<close>

fun Name :: "ICommand \<Rightarrow> string" where
  "Name (Command nm u d x) = SplitN2 CHR '' '' (ReplaceBlanks nm) ! 0"
| "Name (CommandGroup nm u cs) = nm"

text \<open>\<^verbatim>\<open>command.PositionalArgs\<close> (line 1258).\<close>

fun positional :: "string list \<Rightarrow> failure + string list" where
  "positional [] = Inr []"
| "positional (arg # parts) =
     (if readPositionalArg arg \<noteq> []
      then (case positional parts of Inl e \<Rightarrow> Inl e | Inr as \<Rightarrow> Inr (readPositionalArg arg # as))
      else Inl (Panic InvalidPositionalArgs))"

definition PositionalArgs :: "string \<Rightarrow> failure + string list" where
  "PositionalArgs nm = positional (tl (Split CHR '' '' (ReplaceBlanks nm)))"

text \<open>
  \<^verbatim>\<open>parseCommandFlags\<close> (line 887). The destination is a new zero value of the type of
  the default flags.
\<close>

definition parseCommandFlags ::
    "environ \<Rightarrow> val option \<Rightarrow> string list \<Rightarrow> string list \<Rightarrow> failure + (string list \<times> val option)" where
  "parseCommandFlags ev commandFlags positionalArgs commandArgs =
     (case commandFlags of
        None \<Rightarrow> Inr ([], None)
      | Some d \<Rightarrow>
          if Kind d \<noteq> KStruct \<and> Kind d \<noteq> KSlice then Inl (Panic ExpectedStructOrSlice)
          else if Kind d = KSlice then Inr ([], Some (VStringSlice commandArgs))
          else (case UnmarshalFlags Current ev d commandArgs (PtrTo (zero d)) of
                  Inl e \<Rightarrow> Inl e
                | Inr (remaining, v) \<Rightarrow>
                    (case fillPositionalArgs positionalArgs (PtrTo v) remaining of
                       Inl e \<Rightarrow> Inl e
                     | Inr (remaining', v') \<Rightarrow> Inr (remaining', Some v'))))"

section \<open>Argument files\<close>

text \<open>
  \<^verbatim>\<open>os.Expand\<close> of the Go library, with \<^verbatim>\<open>getShellName\<close>: \<^verbatim>\<open>$name\<close> and
  \<^verbatim>\<open>${name}\<close> are replaced by what the mapping gives; a \<^verbatim>\<open>$\<close> at the end, or before
  a byte that starts no name, stays.
\<close>

definition isShellSpecialVar :: "char \<Rightarrow> bool" where
  "isShellSpecialVar c = (c \<in> set ''*#$@!?-0123456789'')"

definition isAlphaNum :: "char \<Rightarrow> bool" where
  "isAlphaNum c =
     (c \<in> set ''_0123456789abcdefghijklmnopqrstuvwxyzABCDEFGHIJKLMNOPQRSTUVWXYZ'')"

definition getShellName :: "string \<Rightarrow> string \<times> nat" where
  "getShellName s =
     (if hd s = CHR ''{'' then
        (if length s > 2 \<and> isShellSpecialVar (s ! 1) \<and> s ! 2 = CHR ''}'' then ([s ! 1], 3)
         else if CHR ''}'' \<in> set (tl s) then
           (if hd (tl s) = CHR ''}'' then ([], 2)
            else (takeWhile (\<lambda>c. c \<noteq> CHR ''}'') (tl s),
                  length (takeWhile (\<lambda>c. c \<noteq> CHR ''}'') (tl s)) + 2))
         else ([], 1))
      else if isShellSpecialVar (hd s) then ([hd s], 1)
      else (takeWhile isAlphaNum s, length (takeWhile isAlphaNum s)))"

function Expand :: "(string \<Rightarrow> string) \<Rightarrow> string \<Rightarrow> string" where
  "Expand mapping [] = []"
| "Expand mapping (c # cs) =
     (if c = CHR ''$'' \<and> cs \<noteq> [] then
        (if fst (getShellName cs) = [] \<and> snd (getShellName cs) > 0 then []
         else if fst (getShellName cs) = [] then [c]
         else mapping (fst (getShellName cs)))
        @ Expand mapping (drop (snd (getShellName cs)) cs)
      else c # Expand mapping cs)"
  by pat_completeness auto
termination
  by (relation "measure (\<lambda>(m, s). length s)") auto

definition Getenv :: "environ \<Rightarrow> string \<Rightarrow> string" where
  "Getenv ev k = (case map_of ev k of None \<Rightarrow> [] | Some v \<Rightarrow> v)"

definition ExpandEnv :: "environ \<Rightarrow> string \<Rightarrow> string" where
  "ExpandEnv ev s = Expand (Getenv ev) s"

text \<open>\<^verbatim>\<open>os.Setenv\<close>: an empty key, or a NUL byte in the key or the value, is an error.\<close>

definition Setenv :: "environ \<Rightarrow> string \<Rightarrow> string \<Rightarrow> environ option" where
  "Setenv ev k v =
     (if k = [] \<or> CHR ''='' \<in> set k \<or> CHR 0x00 \<in> set k \<or> CHR 0x00 \<in> set v then None
      else Some (AList.update k v ev))"

record ArgFile =
  file_command :: "string list"
  file_args :: "string list"
  file_env :: "string list"

text \<open>
  The loop over \<^verbatim>\<open>argFile.Env\<close> (lines 837 to 842): the failure, if any, and the
  environment as it is left.
\<close>

fun apply_env :: "string list \<Rightarrow> environ \<Rightarrow> failure option \<times> environ" where
  "apply_env [] ev = (None, ev)"
| "apply_env (e # es) ev =
     (if length (SplitN2 CHR ''='' e) < 2 then (Some (Panic IndexOutOfRange), ev)
      else (case Setenv ev (SplitN2 CHR ''='' e ! 0) (ExpandEnv ev (SplitN2 CHR ''='' e ! 1)) of
              None \<Rightarrow> (Some (Error SetenvFailed), ev)
            | Some ev' \<Rightarrow> apply_env es ev'))"

text \<open>
  The values of the context that dispatch reads and sets, the files \<^verbatim>\<open>ioutil.ReadFile\<close>
  and \<^verbatim>\<open>json.Unmarshal\<close> find (none, one that does not parse, or an \<^verbatim>\<open>ArgFile\<close>), and
  what a dispatch changes outside: the process environment, and the files it has asked
  for, in order.
\<close>

record ctx =
  parentCommands :: "string list"
  argFile :: "ArgFile option"
  remainingArgs :: "string list"

datatype file_content = Missing | Malformed | Json ArgFile

type_synonym files = "string \<Rightarrow> file_content"

record world =
  process_env :: environ
  files_read :: "string list"

text \<open>\<^verbatim>\<open>mergeArgsFileArgs\<close> (line 827).\<close>

definition mergeArgsFileArgs ::
    "files \<Rightarrow> string \<Rightarrow> ctx \<Rightarrow> string list \<Rightarrow> world \<Rightarrow> (failure + (string list \<times> ctx)) \<times> world" where
  "mergeArgsFileArgs fls filename c args w =
     (case fls filename of
        Missing \<Rightarrow> (Inl (Error CouldNotOpen), w\<lparr>files_read := files_read w @ [filename]\<rparr>)
      | Malformed \<Rightarrow> (Inl (Error CouldNotRead), w\<lparr>files_read := files_read w @ [filename]\<rparr>)
      | Json af \<Rightarrow>
          (case apply_env (file_env af) (process_env w) of
             (Some e, ev) \<Rightarrow>
               (Inl e, w\<lparr>process_env := ev, files_read := files_read w @ [filename]\<rparr>)
           | (None, ev) \<Rightarrow>
               (if length args < length (parentCommands c) + 2 then Inl (Panic IndexOutOfRange)
                else Inr (take (length (parentCommands c) + 1) args @ file_command af
                          @ map (ExpandEnv ev) (file_args af)
                          @ drop (length (parentCommands c) + 2) args,
                          c\<lparr>argFile := Some af\<rparr>),
                w\<lparr>process_env := ev, files_read := files_read w @ [filename]\<rparr>)))"

section \<open>Dispatch\<close>

text \<open>
  How a dispatch ends: with the usage text, with a failure, or with the call
  \<^verbatim>\<open>command.Execute(ctx, arg)\<close> of line 793, given by the function the command
  executes, the context and the flags it is called with.
\<close>

datatype outcome =
    Usage
  | Failed failure
  | Execute string ctx "val option"

text \<open>\<^verbatim>\<open>Commands.usage\<close> (line 860), its text left out.\<close>

definition usage_of :: "ICommand list \<Rightarrow> string list \<Rightarrow> outcome" where
  "usage_of cs args =
     (if args = [] then Failed (Panic IndexOutOfRange)
      else if \<exists>c \<in> set cs. Name c = [] then Failed (Panic NoName)
      else Usage)"

text \<open>
  The loop of lines 773 to 783: \<open>Inl\<close> is the return from inside the loop, with the
  commands of the group matched; \<open>Inr\<close> is the variable \<^verbatim>\<open>command\<close> after the loop.
  The \<^verbatim>\<open>break\<close> of line 778 leaves the \<^verbatim>\<open>switch\<close>, and the loop goes on.
\<close>

fun find_command :: "string \<Rightarrow> ICommand list \<Rightarrow> ICommand option \<Rightarrow> ICommand list + ICommand option" where
  "find_command currentCommandName [] command = Inr command"
| "find_command currentCommandName (c # cs) command =
     (if ToLower (Name c) = currentCommandName
      then (case c of
              Command nm u d x \<Rightarrow> find_command currentCommandName cs (Some c)
            | CommandGroup nm u children \<Rightarrow> Inl children)
      else find_command currentCommandName cs command)"

text \<open>What \<^verbatim>\<open>Commands.Run\<close> does with the command found (lines 784 to 793).\<close>

fun run_command :: "ICommand list \<Rightarrow> ICommand option \<Rightarrow> ctx \<Rightarrow> string list \<Rightarrow> environ \<Rightarrow> outcome" where
  "run_command cs (Some (Command nm u d x)) c args ev =
     (if Name (Command nm u d x) = [] then usage_of cs args
      else (case PositionalArgs nm of
              Inl e \<Rightarrow> Failed e
            | Inr positionalArgs \<Rightarrow>
                (case parseCommandFlags ev d positionalArgs
                        (drop (length (parentCommands c) + 2) args) of
                   Inl e \<Rightarrow> Failed e
                 | Inr (remaining, arg) \<Rightarrow> Execute x (c\<lparr>remainingArgs := remaining\<rparr>) arg)))"
| "run_command cs _ c args ev = usage_of cs args"

text \<open>\<^verbatim>\<open>Commands.Run\<close> (line 755).\<close>

function Run :: "files \<Rightarrow> ICommand list \<Rightarrow> ctx \<Rightarrow> string list \<Rightarrow> world \<Rightarrow> outcome \<times> world" where
  "Run fls cs c args w =
     (if length args < length (parentCommands c) + 2 then (usage_of cs args, w)
      else if HasPrefix (ToLower (args ! (length (parentCommands c) + 1))) CHR ''@''
              \<and> argFile c = None
      then (case mergeArgsFileArgs fls (tl (ToLower (args ! (length (parentCommands c) + 1))))
                   c args w of
              (Inl e, w') \<Rightarrow> (Failed e, w')
            | (Inr (mergedArgs, c'), w') \<Rightarrow> Run fls cs c' mergedArgs w')
      else (case find_command (ToLower (args ! (length (parentCommands c) + 1))) cs None of
              Inl children \<Rightarrow>
                Run fls children
                  (c\<lparr>parentCommands :=
                       parentCommands c @ [ToLower (args ! (length (parentCommands c) + 1))]\<rparr>)
                  args w
            | Inr command \<Rightarrow> (run_command cs command c args (process_env w), w)))"
  by pat_completeness auto

termination
  apply (relation "measures [\<lambda>(fls, cs, c, args, w). if argFile c = None then 1 else 0,
                             \<lambda>(fls, cs, c, args, w). length args - length (parentCommands c)]")
    apply simp
   apply (auto simp: mergeArgsFileArgs_def
               split: file_content.splits prod.splits option.splits if_splits)
  done

section \<open>Values that Go admits\<close>


section \<open>What a walk has registered\<close>

text \<open>
  Notions for the proofs about the flags a walk collects. \<open>registered d ev f nv\<close>: the
  entry \<open>nv\<close> of the flag set is the flag of \<open>f\<close>, and the value it was registered
  with comes from the field of the defaults \<open>d\<close> that \<open>f\<close> sets. \<open>below at i p\<close>:
  the place \<open>p\<close> lies in the record at \<open>at\<close>, in field \<open>i\<close> or a later one.
  \<open>walk_inv\<close>: every flag collected is registered, under a name and for a field of
  its own.
\<close>

definition registered :: "val \<Rightarrow> environ \<Rightarrow> flagInfo \<Rightarrow> string \<times> flagValue \<Rightarrow> bool" where
  "registered d ev f nv =
     (fst nv = name f \<and>
      (\<exists>dv. field_at (set_field f) d = Some dv \<and> leaf_flag f ev dv = Some (snd nv)))"

definition below :: "nat list \<Rightarrow> nat \<Rightarrow> nat list \<Rightarrow> bool" where
  "below at i p = (\<exists>j q. p = at @ j # q \<and> i \<le> j)"

definition walk_inv :: "val \<Rightarrow> environ \<Rightarrow> FlagSet \<Rightarrow> flagInfo list \<Rightarrow> bool" where
  "walk_inv d ev fs coll =
     (list_all2 (registered d ev) coll fs \<and> distinct (map fst fs)
      \<and> distinct (map set_field coll))"

section \<open>Records and commands used as examples\<close>

definition tagged :: "string \<Rightarrow> string \<Rightarrow> field_tag" where
  "tagged f e = \<lparr>tag_flag = f, tag_usage = [], tag_env = e, tag_validate = []\<rparr>"

text \<open>\<^verbatim>\<open>struct { String string `flag:"string"` }\<close>\<close>

definition string_record :: "string \<Rightarrow> val" where
  "string_record s = VStruct ''Flags'' [(tagged ''string'' [], VString s)]"

text \<open>\<^verbatim>\<open>struct { Int int `flag:"int" env:"N"` }\<close>\<close>

definition int_record :: "int \<Rightarrow> val" where
  "int_record n = VStruct ''Flags'' [(tagged ''int'' ''N'', VInt n)]"

text \<open>\<^verbatim>\<open>struct { List []string `flag:"list"` }\<close>\<close>

definition list_record :: "string list \<Rightarrow> val" where
  "list_record l = VStruct ''Flags'' [(tagged ''list'' [], VStringSlice l)]"

text \<open>\<^verbatim>\<open>struct { Map map[string]string `flag:"map"` }\<close>\<close>

definition map_record :: "(string \<times> string) list \<Rightarrow> val" where
  "map_record m = VStruct ''Flags'' [(tagged ''map'' [], VStringMap m)]"


text \<open>\<^verbatim>\<open>struct { Flag string `flag:"flag"` }\<close>\<close>

definition flag_record :: "string \<Rightarrow> val" where
  "flag_record s = VStruct ''Flags'' [(tagged ''flag'' [], VString s)]"

text \<open>\<^verbatim>\<open>struct { File string `flag:"[file]"`; Rest []string `flag:"[rest...]"` }\<close>\<close>

definition positional_record :: "string \<Rightarrow> string list \<Rightarrow> val" where
  "positional_record f rest =
     VStruct ''Flags'' [(tagged ''[file]'' [], VString f), (tagged ''[rest...]'' [], VStringSlice rest)]"


text \<open>\<^verbatim>\<open>struct { String string `flag:"string"`; List []string `flag:"list"` }\<close> with defaults.\<close>

definition defaults_record :: val where
  "defaults_record =
     VStruct ''Flags''
       [(tagged ''string'' [], VString ''default''), (tagged ''list'' [], VStringSlice [''x''])]"

definition top_ctx :: ctx where
  "top_ctx = \<lparr>parentCommands = [], argFile = None, remainingArgs = []\<rparr>"

definition example_argfile :: ArgFile where
  "example_argfile =
     \<lparr>file_command = [''cmd''], file_args = [''--flag=$b''], file_env = [''b=1'', ''x=a$b'']\<rparr>"

definition example_files :: files where
  "example_files f = (if f = ''file'' then Json example_argfile else Missing)"

section \<open>The schema walk and plain flag names\<close>

text \<open>
  C1. The claim: the walk registers one flag for each field with a flag name and of
  string, bool or integer kind, so that after the walk of a record with a string field
  of flag name \<^verbatim>\<open>string\<close> the flag \<^verbatim>\<open>-string\<close> parses. In the current copy the walk
  continues at line 1127 for every flag name that is not of the form \<^verbatim>\<open>[x]\<close>: on that
  record it registers nothing and leaves \<^verbatim>\<open>seen\<close> empty, and \<^verbatim>\<open>-string=x\<close> is a flag
  that is not defined.
\<close>

theorem current_walk_skips_plain_name:
  "collectStructFlags Current ev [] [] [] (string_record s) (Ptr (TStruct ''Flags'') []) {}
     = Inr ([], [], {})
   \<and> UnmarshalFlags Current ev (string_record s) [''-string=x''] (PtrTo (zero (string_record s)))
     = Inl (Error (NotDefined ''string''))"
  by (simp add: UnmarshalFlags_def string_record_def tagged_def readFlagInfo_def
        readPositionalArg_def flag_name_def cut_value_def)

text \<open>The earlier copy, without that line, registers the flag, and the token sets the field.\<close>

lemma earlier_walk_registers_plain_name:
  "UnmarshalFlags Earlier [] (string_record s) [''-string=x''] (PtrTo (zero (string_record s)))
     = Inr ([], string_record ''x'')"
  by (simp add: UnmarshalFlags_def string_record_def tagged_def readFlagInfo_def Var_def
        flag_name_def cut_value_def run_set_def readEnv_def)

section \<open>Environment variables\<close>

text \<open>
  C2. The claim: a string, bool or integer field with an environment variable that is
  set and parses resolves to the value of the variable when no flag is given. For an
  integer field \<^verbatim>\<open>readEnv\<close> is given a pointer to an \<^verbatim>\<open>int64\<close>, the kind of the pointee
  is \<^verbatim>\<open>reflect.Int64\<close>, and the switch has no such case: the variable is not read.
  With \<^verbatim>\<open>N=5\<close>, the default 7 and no token, the earlier copy resolves the field to 7;
  the current copy does not register the flag \<^verbatim>\<open>int\<close> at all (line 1127) and leaves the
  destination at 0.
\<close>

theorem env_not_read_for_int:
  "UnmarshalFlags Earlier [(''N'', ''5'')] (int_record 7) [] (PtrTo (zero (int_record 7)))
     = Inr ([], int_record 7)
   \<and> UnmarshalFlags Current [(''N'', ''5'')] (int_record 7) [] (PtrTo (zero (int_record 7)))
     = Inr ([], int_record 0)"
  by (simp add: UnmarshalFlags_def tagged_def readFlagInfo_def Var_def run_set_def readEnv_def
        readPositionalArg_def int_record_def)

text \<open>Whatever the environment holds, an integer flag is registered with the default.\<close>

lemma int_flag_ignores_env: "leaf_flag info ev (VInt n) = Some (intValue n)"
  by (simp add: readEnv_def split: option.splits)

text \<open>A string flag is registered with the value of its variable, where that is set.\<close>

lemma string_flag_reads_env:
  "env info \<noteq> [] \<Longrightarrow> map_of ev (env info) = Some x \<Longrightarrow>
     leaf_flag info ev (VString s) = Some (stringValue x)"
  by (simp add: readEnv_def)

lemma bool_flag_reads_env:
  "env info \<noteq> [] \<Longrightarrow> map_of ev (env info) = Some x \<Longrightarrow> ParseBool x = Some t \<Longrightarrow>
     leaf_flag info ev (VBool b) = Some (boolValue t)"
  by (simp add: readEnv_def)

section \<open>Commands of one name\<close>

text \<open>
  C3. The claim: of two commands of one name at one level, dispatch runs the first.
  The \<^verbatim>\<open>break\<close> of line 778 ends the \<^verbatim>\<open>switch\<close>, not the loop, so a later command of
  that name replaces the earlier one in \<^verbatim>\<open>command\<close>: with the commands \<^verbatim>\<open>serve\<close> and
  \<^verbatim>\<open>Serve\<close>, in this order, \<^verbatim>\<open>exe serve\<close> runs the second.
\<close>

theorem last_command_runs:
  "Run fls [Command ''serve'' [] None ''first'', Command ''Serve'' [] None ''second'']
       top_ctx [''exe'', ''serve''] w
     = (Execute ''second'' top_ctx None, w)"
  by (simp add: top_ctx_def HasPrefix_def ToLower_def SplitN2_def PositionalArgs_def
        parseCommandFlags_def)

text \<open>Among commands only, the loop returns the last one of the name.\<close>

lemma find_command_last:
  "find_command n (cs @ [Command nm u d x]) command =
     (case find_command n cs command of
        Inl children \<Rightarrow> Inl children
      | Inr found \<Rightarrow> if ToLower (Name (Command nm u d x)) = n then Inr (Some (Command nm u d x))
                     else Inr found)"
  by (induction cs arbitrary: command) (auto split: ICommand.splits)

section \<open>Map flags\<close>

text \<open>
  C5. The claim: \<^verbatim>\<open>-map=a=1 -map=a=2\<close> on a string-map field gives the map of \<^verbatim>\<open>a\<close> to
  \<^verbatim>\<open>2\<close>. In the current copy the flag \<^verbatim>\<open>map\<close> is not registered (line 1127), and the
  first token is a flag that is not defined.
\<close>

theorem current_map_flag_not_defined:
  "UnmarshalFlags Current ev (map_record []) [''-map=a=1'', ''-map=a=2'']
       (PtrTo (zero (map_record [])))
     = Inl (Error (NotDefined ''map''))"
  by (simp add: UnmarshalFlags_def tagged_def readFlagInfo_def flag_name_def cut_value_def
        readPositionalArg_def map_record_def)

text \<open>
  The earlier copy gives the map of the claim, and in both copies the map built from
  the entries has, for each key, the value of its last entry.
\<close>

lemma earlier_map_flag_last_wins:
  "UnmarshalFlags Earlier ev (map_record []) [''-map=a=1'', ''-map=a=2'']
       (PtrTo (zero (map_record [])))
     = Inr ([], map_record [(''a'', ''2'')])"
  by (simp add: UnmarshalFlags_def tagged_def readFlagInfo_def Var_def flag_name_def
        cut_value_def run_set_def map_record_def stringMap_Set_def stringMap_entry_def
        SplitN2_def build_map_def)

lemma foldl_update_map_of:
  "map_of (foldl (\<lambda>m e. AList.update (fst e) (snd e) m) m0 sm) k =
     (case map_of (rev sm) k of None \<Rightarrow> map_of m0 k | Some v \<Rightarrow> Some v)"
  by (induction sm arbitrary: m0) (auto simp: update_conv' split: option.splits)

lemma build_map_last_wins: "map_of (build_map sm) = map_of (rev sm)"
  by (rule ext) (simp add: build_map_def foldl_update_map_of split: option.splits)

section \<open>Argument files\<close>

text \<open>
  C8. The claim: an argument file with the environment \<^verbatim>\<open>b=1\<close>, \<^verbatim>\<open>x=a$b\<close> and the
  argument \<^verbatim>\<open>--flag=$b\<close> leaves \<^verbatim>\<open>x=a1\<close> in the process environment and binds the flag
  to \<^verbatim>\<open>1\<close>. The environment is left so, and the token becomes \<^verbatim>\<open>--flag=1\<close>; but the
  current walk does not register the flag \<^verbatim>\<open>flag\<close> (line 1127), and the dispatch ends
  with the error of a flag that is not defined.
\<close>

theorem argfile_flag_not_defined:
  "Run example_files [Command ''cmd'' [] (Some (flag_record [])) ''run''] top_ctx
       [''exe'', ''@file''] \<lparr>process_env = [], files_read = []\<rparr>
     = (Failed (Error (NotDefined ''flag'')),
        \<lparr>process_env = [(''b'', ''1''), (''x'', ''a1'')], files_read = [''file'']\<rparr>)"
  by code_simp

text \<open>The rewriting of the argument vector itself, and the earlier walk on its result.\<close>

lemma argfile_merged:
  "mergeArgsFileArgs example_files ''file'' top_ctx [''exe'', ''@file'']
       \<lparr>process_env = [], files_read = []\<rparr>
     = (Inr ([''exe'', ''cmd'', ''--flag=1''], top_ctx\<lparr>argFile := Some example_argfile\<rparr>),
        \<lparr>process_env = [(''b'', ''1''), (''x'', ''a1'')], files_read = [''file'']\<rparr>)"
  by code_simp

lemma earlier_walk_binds_flag:
  "UnmarshalFlags Earlier ev (flag_record []) [''--flag=1''] (PtrTo (zero (flag_record [])))
     = Inr ([], flag_record ''1'')"
  by (simp add: UnmarshalFlags_def tagged_def readFlagInfo_def Var_def flag_name_def
        cut_value_def run_set_def readEnv_def flag_record_def)

text \<open>Dispatch with an argument file in the context, and the files a dispatch reads.\<close>

declare Run.simps [simp del]







text \<open>An argument file that names itself as its command is read once.\<close>

lemma self_including_argfile:
  "Run (\<lambda>f. Json \<lparr>file_command = [''@file''], file_args = [], file_env = []\<rparr>)
       [Command ''cmd'' [] None ''run''] top_ctx [''exe'', ''@file'']
       \<lparr>process_env = [], files_read = []\<rparr>
     = (Usage, \<lparr>process_env = [], files_read = [''file'']\<rparr>)"
  by code_simp

section \<open>Positional arguments\<close>

lemma fill_shift:
  "fill ps (Suc pos) (Suc n) tn flds (t # ts) = fill ps pos n tn flds ts"
  by (induction ps arbitrary: pos flds) (auto split: option.splits)

text \<open>
  C9. Binding goes through the names from the left. A name whose field is a string
  takes the first token, and the names after it are bound to the tokens after it. A
  name whose field is a list of strings takes all the tokens there are, and nothing is
  left, whatever names follow. The command \<^verbatim>\<open>cmd [file] [rest...]\<close> with the tokens
  \<^verbatim>\<open>a b c\<close> is executed with \<^verbatim>\<open>file\<close> = \<^verbatim>\<open>a\<close>, the list \<^verbatim>\<open>b\<close>, \<^verbatim>\<open>c\<close>, and no
  remaining arguments.
\<close>

theorem positional_binding:
  "(find_field p flds 0 = Some (i, VString s) \<longrightarrow>
      fillPositionalArgs (p # ps) (PtrTo (VStruct tn flds)) (t # ts)
        = fillPositionalArgs ps (PtrTo (VStruct tn (flds[i := (fst (flds ! i), VString t)]))) ts)
   \<and> (find_field p flds 0 = Some (i, VStringSlice l) \<longrightarrow>
      fillPositionalArgs (p # ps) (PtrTo (VStruct tn flds)) (t # ts)
        = Inr ([], VStruct tn (flds[i := (fst (flds ! i), VStringSlice (t # ts))])))
   \<and> Run fls [Command ''cmd [file] [rest...]'' [] (Some (positional_record [] [])) ''run'']
        top_ctx [''exe'', ''cmd'', ''a'', ''b'', ''c''] w
        = (Execute ''run'' (top_ctx\<lparr>remainingArgs := []\<rparr>)
             (Some (positional_record ''a'' [''b'', ''c''])), w)"
proof (intro conjI impI)
  assume "find_field p flds 0 = Some (i, VString s)"
  then show "fillPositionalArgs (p # ps) (PtrTo (VStruct tn flds)) (t # ts)
        = fillPositionalArgs ps (PtrTo (VStruct tn (flds[i := (fst (flds ! i), VString t)]))) ts"
    by (simp add: fillPositionalArgs_def fill_shift)
next
  assume "find_field p flds 0 = Some (i, VStringSlice l)"
  then show "fillPositionalArgs (p # ps) (PtrTo (VStruct tn flds)) (t # ts)
        = Inr ([], VStruct tn (flds[i := (fst (flds ! i), VStringSlice (t # ts))]))"
    by (simp add: fillPositionalArgs_def)
next
  show "Run fls [Command ''cmd [file] [rest...]'' [] (Some (positional_record [] [])) ''run'']
        top_ctx [''exe'', ''cmd'', ''a'', ''b'', ''c''] w
        = (Execute ''run'' (top_ctx\<lparr>remainingArgs := []\<rparr>)
             (Some (positional_record ''a'' [''b'', ''c''])), w)"
    by (simp add: Run.simps top_ctx_def HasPrefix_def ToLower_def SplitN2_def PositionalArgs_def
        parseCommandFlags_def positional_record_def UnmarshalFlags_def tagged_def
        readFlagInfo_def Var_def run_set_def readEnv_def readPositionalArg_def
        fillPositionalArgs_def)
qed


theorem positional_binding_witness:
  "find_field ''file'' [(tagged ''[file]'' [], VString []), (tagged ''[rest...]'' [], VStringSlice [])] 0
     = Some (0, VString [])
   \<and> fillPositionalArgs [''file'', ''rest...''] (PtrTo (positional_record [] [])) [''a'', ''b'', ''c'']
     = fillPositionalArgs [''rest...''] (PtrTo (positional_record ''a'' [])) [''b'', ''c'']
   \<and> find_field ''rest...'' [(tagged ''[file]'' [], VString ''a''), (tagged ''[rest...]'' [], VStringSlice [])] 0
     = Some (1, VStringSlice [])
   \<and> fillPositionalArgs [''rest...''] (PtrTo (positional_record ''a'' [])) [''b'', ''c'']
     = Inr ([], positional_record ''a'' [''b'', ''c''])"
proof -
  have 1: "find_field ''file''
             [(tagged ''[file]'' [], VString []), (tagged ''[rest...]'' [], VStringSlice [])] 0
           = Some (0, VString [])"
    by (simp add: tagged_def readFlagInfo_def readPositionalArg_def)
  have 2: "find_field ''rest...''
             [(tagged ''[file]'' [], VString ''a''), (tagged ''[rest...]'' [], VStringSlice [])] 0
           = Some (1, VStringSlice [])"
    by (simp add: tagged_def readFlagInfo_def readPositionalArg_def)
  from 1 positional_binding [where p = "''file''" and i = 0 and s = "[]" and tn = "''Flags''"
      and flds = "[(tagged ''[file]'' [], VString []), (tagged ''[rest...]'' [], VStringSlice [])]"
      and ps = "[''rest...'']" and t = "''a''" and ts = "[''b'', ''c'']"]
  have 3: "fillPositionalArgs [''file'', ''rest...''] (PtrTo (positional_record [] [])) [''a'', ''b'', ''c'']
     = fillPositionalArgs [''rest...''] (PtrTo (positional_record ''a'' [])) [''b'', ''c'']"
    by (simp add: positional_record_def)
  from 2 positional_binding [where p = "''rest...''" and i = 1 and l = "[]" and tn = "''Flags''"
      and flds = "[(tagged ''[file]'' [], VString ''a''), (tagged ''[rest...]'' [], VStringSlice [])]"
      and ps = "[]" and t = "''b''" and ts = "[''c'']"]
  have 4: "fillPositionalArgs [''rest...''] (PtrTo (positional_record ''a'' [])) [''b'', ''c'']
     = Inr ([], positional_record ''a'' [''b'', ''c''])"
    by (simp add: positional_record_def)
  from 1 2 3 4 show ?thesis by blast
qed

section \<open>An environment entry without a value\<close>

lemma apply_env_append:
  "apply_env (pre @ es) ev =
     (case apply_env pre ev of (None, ev') \<Rightarrow> apply_env es ev' | (Some e, ev') \<Rightarrow> (Some e, ev'))"
  by (induction pre arbitrary: ev) (auto split: option.splits)

text \<open>
  C10. When the token at the place of the command names an argument file that parses,
  and its environment list has an entry without \<^verbatim>\<open>=\<close> after entries that were all
  applied, the dispatch panics: \<^verbatim>\<open>kv[1]\<close> of line 839 is out of range.
\<close>

theorem argfile_env_without_equals_panics:
  assumes "length (parentCommands c) + 2 \<le> length args"
      and "HasPrefix (ToLower (args ! (length (parentCommands c) + 1))) CHR ''@''"
      and "argFile c = None"
      and "fls (tl (ToLower (args ! (length (parentCommands c) + 1)))) = Json af"
      and "file_env af = pre @ e # post"
      and "CHR ''='' \<notin> set e"
      and "fst (apply_env pre (process_env w)) = None"
  shows "fst (Run fls cs c args w) = Failed (Panic IndexOutOfRange)"
proof -
  obtain ev' where "apply_env pre (process_env w) = (None, ev')"
    using assms(7) by (cases "apply_env pre (process_env w)") auto
  with assms(5,6) have "apply_env (file_env af) (process_env w) = (Some (Panic IndexOutOfRange), ev')"
    by (simp add: apply_env_append SplitN2_def)
  with assms(1-4) show ?thesis
    by (simp add: Run.simps [of fls cs c args w] mergeArgsFileArgs_def)
qed

theorem argfile_env_without_equals_panics_witness:
  "length (parentCommands top_ctx) + 2 \<le> length [''exe'', ''@file'']
   \<and> HasPrefix (ToLower ([''exe'', ''@file''] ! (length (parentCommands top_ctx) + 1))) CHR ''@''
   \<and> argFile top_ctx = None
   \<and> file_env \<lparr>file_command = [''cmd''], file_args = [], file_env = [''FOO'']\<rparr> = [] @ ''FOO'' # []
   \<and> CHR ''='' \<notin> set ''FOO''
   \<and> fst (apply_env [] []) = None
   \<and> fst (Run (\<lambda>f. Json \<lparr>file_command = [''cmd''], file_args = [], file_env = [''FOO'']\<rparr>)
             [Command ''cmd'' [] None ''run''] top_ctx [''exe'', ''@file'']
             \<lparr>process_env = [], files_read = []\<rparr>)
       = Failed (Panic IndexOutOfRange)"
proof -
  have 1: "length (parentCommands top_ctx) + 2 \<le> length [''exe'', ''@file'']"
    by (simp add: top_ctx_def)
  have 2: "HasPrefix (ToLower ([''exe'', ''@file''] ! (length (parentCommands top_ctx) + 1))) CHR ''@''"
    by (simp add: top_ctx_def HasPrefix_def ToLower_def)
  have 3: "argFile top_ctx = None" by (simp add: top_ctx_def)
  have 4: "(\<lambda>f. Json \<lparr>file_command = [''cmd''], file_args = [], file_env = [''FOO'']\<rparr>)
             (tl (ToLower ([''exe'', ''@file''] ! (length (parentCommands top_ctx) + 1))))
           = Json \<lparr>file_command = [''cmd''], file_args = [], file_env = [''FOO'']\<rparr>" by simp
  have 5: "file_env \<lparr>file_command = [''cmd''], file_args = [], file_env = [''FOO'']\<rparr> = [] @ ''FOO'' # []"
    by simp
  have 6: "CHR ''='' \<notin> set ''FOO''" by simp
  have 7: "fst (apply_env [] (process_env \<lparr>process_env = [], files_read = []\<rparr>)) = None" by simp
  from argfile_env_without_equals_panics [OF 1 2 3 4 5 6 7, of "[Command ''cmd'' [] None ''run'']"]
    1 2 3 5 6 show ?thesis by simp
qed


section \<open>Repeated types\<close>








section \<open>Defaults\<close>

text \<open>
  C4, as claimed, fails for a list: with the default list of \<^verbatim>\<open>x\<close> and nothing given,
  the field resolves to the empty list. The \<^verbatim>\<open>set\<close> closure of a list or map field
  stores what the flag has gathered, which starts empty (lines 1157 and 1167), and the
  defaults of such a field are not read anywhere.
\<close>

theorem list_default_dropped:
  "UnmarshalFlags Earlier [] (list_record [''x'']) [] (PtrTo (zero (list_record [''x''])))
     = Inr ([], list_record [])
   \<and> UnmarshalFlags Current [] (list_record [''x'']) [] (PtrTo (zero (list_record [''x''])))
     = Inr ([], list_record [])"
  by (simp add: UnmarshalFlags_def tagged_def readFlagInfo_def Var_def run_set_def
        readPositionalArg_def list_record_def)

text \<open>The flags a walk collects: each registered once, for a field of the defaults.\<close>

lemma drop_cons_facts:
  assumes "x # rest = drop i all"
  shows "i < length all" and "all ! i = x" and "rest = drop (Suc i) all"
proof -
  from assms show "i < length all"
    by (metis drop_all leI list.distinct(1))
  from assms [symmetric] show "all ! i = x"
    by (rule nth_via_drop)
  from assms show "rest = drop (Suc i) all"
    by (metis drop_Suc list.sel(3) tl_drop)
qed

lemma field_at_append:
  "field_at (p @ q) d = (case field_at p d of None \<Rightarrow> None | Some v \<Rightarrow> field_at q v)"
proof (induction p arbitrary: d)
  case Nil
  then show ?case by simp
next
  case (Cons i p)
  then show ?case by (cases d) auto
qed

lemma leaf_flag_set_field [simp]:
  "leaf_flag (info\<lparr>set_field := p\<rparr>) ev dv = leaf_flag info ev dv"
  by (cases dv) (simp_all add: readEnv_def)

lemma below_Suc: "below at (Suc i) p \<Longrightarrow> below at i p"
  by (auto simp: below_def)

lemma below_nested: "below (at @ [i]) 0 p \<Longrightarrow> below at i p"
  by (auto simp: below_def)

lemma below_nested_not_Suc: "below (at @ [i]) 0 p \<Longrightarrow> \<not> below at (Suc i) p"
  by (auto simp: below_def)

lemma below_here: "below at i (at @ [i])"
  by (auto simp: below_def)

lemma not_below_Suc_here: "\<not> below at (Suc i) (at @ [i])"
  by (auto simp: below_def)

lemma walk_inv_add:
  assumes inv: "walk_inv d ev fs coll"
      and v: "Var fs (name info) fv = Inr fs1"
      and at: "field_at p d = Some dv"
      and lf: "leaf_flag info ev dv = Some fv"
      and new: "\<forall>f \<in> set coll. set_field f \<noteq> p"
  shows "walk_inv d ev fs1 (coll @ [info\<lparr>set_field := p\<rparr>])"
proof -
  from v have fs1: "fs1 = fs @ [(name info, fv)]" and fresh: "map_of fs (name info) = None"
    by (auto simp: Var_def split: if_splits)
  from fresh have "name info \<notin> fst ` set fs"
    by (simp add: map_of_eq_None_iff)
  moreover have "registered d ev (info\<lparr>set_field := p\<rparr>) (name info, fv)"
    using at lf by (simp add: registered_def)
  ultimately show ?thesis
    using inv new fs1 by (auto simp: walk_inv_def list_all2_appendI)
qed

lemma walk_registered:
  "collectStructFlags r ev fs coll prefix dd foc seen = Inr (fs', coll', seen') \<Longrightarrow>
     foc = Ptr t p \<Longrightarrow> field_at p d = Some dd \<Longrightarrow> walk_inv d ev fs coll \<Longrightarrow>
     \<forall>f \<in> set coll. \<not> below p 0 (set_field f) \<Longrightarrow>
     walk_inv d ev fs' coll' \<and> (\<forall>f \<in> set coll'. f \<in> set coll \<or> below p 0 (set_field f))"
  and "collectFields r ev fs coll prefix flds i at seen = Inr (fs', coll', seen') \<Longrightarrow>
     field_at at d = Some (VStruct n all) \<Longrightarrow> flds = drop i all \<Longrightarrow> walk_inv d ev fs coll \<Longrightarrow>
     \<forall>f \<in> set coll. \<not> below at i (set_field f) \<Longrightarrow>
     walk_inv d ev fs' coll' \<and> (\<forall>f \<in> set coll'. f \<in> set coll \<or> below at i (set_field f))"
proof (induction r ev fs coll prefix dd foc seen and r ev fs coll prefix flds i at seen
       arbitrary: fs' coll' seen' t p and fs' coll' seen' n all
       rule: collectStructFlags_collectFields.induct)
  case (1 r ev fs collected prefix defaults seen)
  then show ?case by simp
next
  case (2 r ev fs collected prefix defaults t0 at0 seen)
  from "2.prems"(2) have foc: "t0 = t" "at0 = p" by auto
  from "2.prems"(1) have t: "t0 = Type defaults" "t0 \<notin> seen"
    by (auto split: if_splits)
  from "2.prems"(1) t obtain n flds where dd: "defaults = VStruct n flds"
    by (cases defaults) auto
  from "2.prems"(1) t dd obtain s'' where
    inner: "collectFields r ev fs collected prefix flds 0 at0 (insert t0 seen) = Inr (fs', coll', s'')"
    by (auto split: sum.splits)
  from "2.prems"(3) dd foc have root: "field_at at0 d = Some (VStruct n flds)" by simp
  have "flds = drop 0 flds" by simp
  from "2.IH" [OF _ _ dd inner root this "2.prems"(4)] t "2.prems"(5) foc
  show ?case by auto
next
  case (3 r ev fs collected prefix i at seen)
  then show ?case by simp
next
  case (4 r ev fs collected prefix tag dv rest i at seen)
  note root = "4.prems"(2) and inv = "4.prems"(4) and out = "4.prems"(5)
  from drop_cons_facts [OF "4.prems"(3)]
  have i: "i < length all" and elem: "all ! i = (tag, dv)" and rest: "rest = drop (Suc i) all" .
  from out have out': "\<forall>f \<in> set collected. \<not> below at (Suc i) (set_field f)"
    using below_Suc by blast
  from root i elem have here: "field_at (at @ [i]) d = Some dv"
    by (simp add: field_at_append)
  show ?case
  proof (cases "readFlagInfo tag prefix")
    case None
    with "4.prems"(1) have "collectFields r ev fs collected prefix rest (Suc i) at seen
         = Inr (fs', coll', seen')" by simp
    from "4.IH"(1) [OF None this root rest inv out'] show ?thesis
      using below_Suc by blast
  next
    case (Some info)
    show ?thesis
    proof (cases "r = Current \<and> readPositionalArg (name info) = []")
      case True
      with Some "4.prems"(1) have "collectFields r ev fs collected prefix rest (Suc i) at seen
         = Inr (fs', coll', seen')" by simp
      from "4.IH"(2) [OF Some True this root rest inv out'] show ?thesis
        using below_Suc by blast
    next
      case guard: False
      show ?thesis
      proof (cases "Kind dv = KStruct \<or> Kind dv = KInterface")
        case True
        let ?p = "if name info \<noteq> ''-'' then name info @ ''.'' else []"
        from "4.prems"(1) Some guard True obtain fs1 c1 s1 where
          nested: "collectStructFlags r ev fs collected ?p dv (Ptr (Type dv) (at @ [i])) seen
                     = Inr (fs1, c1, s1)"
          and rst: "collectFields r ev fs1 c1 prefix rest (Suc i) at s1 = Inr (fs', coll', seen')"
          by (simp split: sum.splits prod.splits)
        from out have "\<forall>f \<in> set collected. \<not> below (at @ [i]) 0 (set_field f)"
          using below_nested by blast
        from "4.IH"(3) [OF Some guard True nested refl here inv this]
        have inv1: "walk_inv d ev fs1 c1"
          and new1: "\<forall>f \<in> set c1. f \<in> set collected \<or> below (at @ [i]) 0 (set_field f)" by auto
        from new1 out' have out1: "\<forall>f \<in> set c1. \<not> below at (Suc i) (set_field f)"
          using below_nested_not_Suc by blast
        from "4.IH"(4) [OF Some guard True nested refl refl rst root rest inv1 out1]
        have "walk_inv d ev fs' coll'"
          and "\<forall>f \<in> set coll'. f \<in> set c1 \<or> below at (Suc i) (set_field f)" by auto
        with new1 show ?thesis
          using below_Suc below_nested by blast
      next
        case leaf: False
        show ?thesis
        proof (cases "leaf_flag info ev dv")
          case None
          with "4.prems"(1) Some guard leaf
          have "collectFields r ev fs collected prefix rest (Suc i) at seen
                  = Inr (fs', coll', seen')" by simp
          from "4.IH"(5) [OF Some guard leaf None this root rest inv out'] show ?thesis
            using below_Suc by blast
        next
          case fv: (Some fv)
          let ?f = "info\<lparr>set_field := at @ [i]\<rparr>"
          from "4.prems"(1) Some guard leaf fv obtain fs1 where
            v: "Var fs (name info) fv = Inr fs1"
            and rst: "collectFields r ev fs1 (collected @ [?f])
                         prefix rest (Suc i) at seen = Inr (fs', coll', seen')"
            by (simp split: sum.splits)
          from out have "\<forall>f \<in> set collected. set_field f \<noteq> at @ [i]"
            using below_here by metis
          from walk_inv_add [OF inv v here fv this]
          have inv1: "walk_inv d ev fs1 (collected @ [?f])" .
          from out' have out1: "\<forall>f \<in> set (collected @ [?f]). \<not> below at (Suc i) (set_field f)"
            using not_below_Suc_here by auto
          from "4.IH"(6) [OF Some guard leaf fv v rst root rest inv1 out1]
          have "walk_inv d ev fs' coll'"
            and "\<forall>f \<in> set coll'. f \<in> set (collected @ [?f]) \<or> below at (Suc i) (set_field f)"
            by auto
          then show ?thesis
            using below_Suc below_here by fastforce
        qed
      qed
    qed
  qed
qed

text \<open>What the \<^verbatim>\<open>set\<close> closures leave in the destination.\<close>

lemma update_at_written:
  "update_at p f a = Inr a' \<Longrightarrow>
     \<exists>old new. field_at p a = Some old \<and> f old = Inr new \<and> field_at p a' = Some new"
proof (induction p arbitrary: a a')
  case Nil
  then show ?case by simp
next
  case (Cons i p)
  then show ?case
    by (cases a) (auto split: if_splits sum.splits)
qed

lemma assign_leaf: "assign fv old = Inr new \<Longrightarrow> Kind old \<noteq> KStruct \<and> Kind new \<noteq> KStruct"
  by (cases "(fv, old)" rule: assign.cases) auto

lemma update_at_other:
  "update_at p (assign fv) a = Inr a' \<Longrightarrow> q \<noteq> p \<Longrightarrow> field_at q a = Some x \<Longrightarrow>
     Kind x \<noteq> KStruct \<Longrightarrow> field_at q a' = Some x"
proof (induction p arbitrary: a a' q)
  case Nil
  from Nil.prems(1) have "Kind a \<noteq> KStruct" using assign_leaf by auto
  with Nil.prems(2,3) show ?case
    by (cases q; cases a) auto
next
  case (Cons i p)
  from Cons.prems(1) obtain n flds where a: "a = VStruct n flds"
    by (cases a) auto
  from Cons.prems(1) a obtain v' where i: "i < length flds"
    and u: "update_at p (assign fv) (snd (flds ! i)) = Inr v'"
    and a': "a' = VStruct n (flds[i := (fst (flds ! i), v')])"
    by (auto split: if_splits sum.splits)
  show ?case
  proof (cases q)
    case Nil
    with Cons.prems(3,4) a show ?thesis by auto
  next
    case (Cons j q')
    show ?thesis
    proof (cases "j = i")
      case True
      with Cons Cons.prems(2) have "q' \<noteq> p" by simp
      from Cons.IH [OF u this] Cons.prems(3,4) a a' i True Cons show ?thesis
        by simp
    next
      case False
      with Cons.prems(3) a a' Cons show ?thesis by (simp split: if_splits)
    qed
  qed
qed

lemma update_at_other_rev:
  "update_at p (assign fv) a = Inr a' \<Longrightarrow> q \<noteq> p \<Longrightarrow> field_at q a' = Some x \<Longrightarrow>
     Kind x \<noteq> KStruct \<Longrightarrow> field_at q a = Some x"
proof (induction p arbitrary: a a' q)
  case Nil
  from Nil.prems(1) have "Kind a' \<noteq> KStruct" using assign_leaf by auto
  with Nil.prems(2,3) show ?case
    by (cases q; cases a') auto
next
  case (Cons i p)
  from Cons.prems(1) obtain n flds where a: "a = VStruct n flds"
    by (cases a) auto
  from Cons.prems(1) a obtain v' where i: "i < length flds"
    and u: "update_at p (assign fv) (snd (flds ! i)) = Inr v'"
    and a': "a' = VStruct n (flds[i := (fst (flds ! i), v')])"
    by (auto split: if_splits sum.splits)
  show ?case
  proof (cases q)
    case Nil
    with Cons.prems(3,4) a' show ?thesis by auto
  next
    case (Cons j q')
    show ?thesis
    proof (cases "j = i")
      case True
      with Cons Cons.prems(2) have "q' \<noteq> p" by simp
      from Cons.IH [OF u this] Cons.prems(3,4) a a' i True Cons show ?thesis
        by simp
    next
      case False
      with Cons.prems(3) a a' Cons show ?thesis by (simp split: if_splits)
    qed
  qed
qed

lemma run_set_other:
  "run_set fs f a = Inr a' \<Longrightarrow> q \<noteq> set_field f \<Longrightarrow> field_at q a = Some x \<Longrightarrow>
     Kind x \<noteq> KStruct \<Longrightarrow> field_at q a' = Some x"
  by (auto simp: run_set_def split: option.splits dest: update_at_other)

lemma run_sets_other:
  "run_sets fs fl a = Inr v \<Longrightarrow> q \<notin> set_field ` set fl \<Longrightarrow> field_at q a = Some x \<Longrightarrow>
     Kind x \<noteq> KStruct \<Longrightarrow> field_at q v = Some x"
proof (induction fl arbitrary: a)
  case Nil
  then show ?case by simp
next
  case (Cons g fl)
  from Cons.prems(1) obtain a' where g: "run_set fs g a = Inr a'"
    and r: "run_sets fs fl a' = Inr v"
    by (auto split: sum.splits)
  from run_set_other [OF g _ Cons.prems(3,4)] Cons.prems(2)
  have "field_at q a' = Some x" by simp
  from Cons.IH [OF r _ this Cons.prems(4)] Cons.prems(2) show ?case by simp
qed

lemma run_sets_written:
  "run_sets fs fl a = Inr v \<Longrightarrow> distinct (map set_field fl) \<Longrightarrow> f \<in> set fl \<Longrightarrow>
     map_of fs (name f) = Some fv \<Longrightarrow>
     \<exists>old new. field_at (set_field f) a = Some old \<and> assign fv old = Inr new
                \<and> field_at (set_field f) v = Some new"
proof (induction fl arbitrary: a)
  case Nil
  then show ?case by simp
next
  case (Cons g fl)
  from Cons.prems(1) obtain a' where g: "run_set fs g a = Inr a'"
    and r: "run_sets fs fl a' = Inr v"
    by (auto split: sum.splits)
  show ?case
  proof (cases "f \<in> set fl")
    case True
    with Cons.prems(2) have ne: "set_field f \<noteq> set_field g"
      by (auto simp: image_iff)
    from Cons.IH [OF r _ True Cons.prems(4)] Cons.prems(2)
    obtain old new where o: "field_at (set_field f) a' = Some old"
      and n: "assign fv old = Inr new" and w: "field_at (set_field f) v = Some new" by auto
    from n have leaf: "Kind old \<noteq> KStruct" using assign_leaf by blast
    have "field_at (set_field f) a = Some old"
    proof (cases "map_of fs (name g)")
      case None
      with g o show ?thesis by (simp add: run_set_def)
    next
      case (Some gv)
      with g have u: "update_at (set_field g) (assign gv) a = Inr a'" by (simp add: run_set_def)
      from update_at_other_rev [OF u ne o leaf] show ?thesis .
    qed
    with n w show ?thesis by blast
  next
    case False
    with Cons.prems(3) have fg: "f = g" by simp
    with g Cons.prems(4) have u: "update_at (set_field f) (assign fv) a = Inr a'"
      by (simp add: run_set_def)
    from update_at_written [OF u] obtain old new where
      o: "field_at (set_field f) a = Some old" and n: "assign fv old = Inr new"
      and w: "field_at (set_field f) a' = Some new" by auto
    from Cons.prems(2) fg have "set_field f \<notin> set_field ` set fl" by simp
    from run_sets_other [OF r this w] n assign_leaf have "field_at (set_field f) v = Some new"
      by blast
    with o n show ?thesis by blast
  qed
qed

text \<open>A flag that no token names keeps the value it was registered with.\<close>

lemma Parse_untouched:
  "Parse fs args = Inr (fs', rest) \<Longrightarrow> \<forall>t \<in> set args. fst (cut_value (flag_name t)) \<noteq> n \<Longrightarrow>
     map_of fs' n = map_of fs n"
proof (induction fs args arbitrary: fs' rest rule: Parse.induct)
  case (1 fs)
  then show ?case by simp
next
  case (2 fs s rest0)
  show ?case
  proof (cases "length s < 2 \<or> hd s \<noteq> CHR ''-'' \<or> s = ''--''")
    case True
    with "2.prems" show ?thesis by (auto split: if_splits)
  next
    case False
    then have c1: "\<not> (length s < 2 \<or> hd s \<noteq> CHR ''-'')" and c2: "s \<noteq> ''--''"
      by auto
    obtain nm hasValue where cv: "cut_value (flag_name s) = (nm, hasValue)"
      by (cases "cut_value (flag_name s)") auto
    with "2.prems"(2) have ne: "nm \<noteq> n" by auto
    from "2.prems"(2) have rest_ok: "\<forall>t \<in> set rest0. fst (cut_value (flag_name t)) \<noteq> n" by simp
    from False "2.prems"(1) have syn:
      "\<not> (flag_name s = [] \<or> hd (flag_name s) = CHR ''-'' \<or> hd (flag_name s) = CHR ''='')"
      by (auto split: if_splits)
    from False syn cv "2.prems"(1) obtain fv where fv: "map_of fs nm = Some fv"
      by (cases "map_of fs nm") (auto split: if_splits)
    have upd: "\<And>fv'. map_of (AList.update nm fv' fs) n = map_of fs n"
      using ne by (simp add: update_conv')
    show ?thesis
    proof (cases "is_boolFlag fv")
      case True
      let ?v = "case hasValue of Some v \<Rightarrow> v | None \<Rightarrow> ''true''"
      from False syn cv fv True "2.prems"(1) obtain fv' where
        s: "Value_Set fv ?v = Some fv'" and p: "Parse (AList.update nm fv' fs) rest0 = Inr (fs', rest)"
        by (cases "Value_Set fv ?v") auto
      from "2.IH"(1) [OF c1 c2 syn cv [symmetric] fv True s p rest_ok] upd
      show ?thesis by auto
    next
      case nb: False
      show ?thesis
      proof (cases hasValue)
        case (Some v)
        from False syn cv fv nb Some "2.prems"(1) obtain fv' where
          s: "Value_Set fv v = Some fv'" and p: "Parse (AList.update nm fv' fs) rest0 = Inr (fs', rest)"
          by (cases "Value_Set fv v") auto
        from "2.IH"(3) [OF c1 c2 syn cv [symmetric] fv nb Some s p rest_ok] upd
        show ?thesis by auto
      next
        case None
        from False syn cv fv nb None "2.prems"(1) obtain v rest' where r: "rest0 = v # rest'"
          by (cases rest0) auto
        from False syn cv fv nb None r "2.prems"(1) obtain fv' where
          s: "Value_Set fv v = Some fv'" and p: "Parse (AList.update nm fv' fs) rest' = Inr (fs', rest)"
          by (cases "Value_Set fv v") auto
        from rest_ok r have "\<forall>t \<in> set rest'. fst (cut_value (flag_name t)) \<noteq> n" by simp
        from "2.IH"(2) [OF c1 c2 syn cv [symmetric] fv nb None r s p this] upd
        show ?thesis by auto
      qed
    qed
  qed
qed

lemma Type_zero [simp]: "Type (zero d) = Type d"
  by (cases d) auto

lemma Kind_zero [simp]: "Kind (zero d) = Kind d"
  by (cases d) auto

lemma field_at_zero: "field_at p (zero d) = map_option zero (field_at p d)"
proof (induction p arbitrary: d)
  case Nil
  then show ?case by simp
next
  case (Cons i p)
  then show ?case by (cases d) (auto simp: case_prod_beta)
qed

lemma readEnv_unset:
  "env f = [] \<or> map_of ev (env f) = None \<Longrightarrow> readEnv f ev x = (x, False)"
  by (auto simp: readEnv_def)

lemma registered_lookup:
  assumes "list_all2 (registered d ev) flags fs" and "distinct (map fst fs)" and "f \<in> set flags"
  shows "\<exists>dv fv. field_at (set_field f) d = Some dv \<and> leaf_flag f ev dv = Some fv
                  \<and> map_of fs (name f) = Some fv"
proof -
  from assms(3) obtain k where k: "k < length flags" "flags ! k = f"
    by (auto simp: in_set_conv_nth)
  from assms(1) k have len: "k < length fs" and reg: "registered d ev f (fs ! k)"
    by (auto simp: list_all2_conv_all_nth)
  from reg obtain dv where dv: "field_at (set_field f) d = Some dv"
    and lf: "leaf_flag f ev dv = Some (snd (fs ! k))" and nm: "fst (fs ! k) = name f"
    by (auto simp: registered_def)
  from len have "fs ! k \<in> set fs" by simp
  with nm have "(name f, snd (fs ! k)) \<in> set fs" by (metis prod.collapse)
  with assms(2) have "map_of fs (name f) = Some (snd (fs ! k))" by simp
  with dv lf show ?thesis by blast
qed

text \<open>
  C4, as amended. Take a flag that the walk has registered and that no token names.
  After \<^verbatim>\<open>UnmarshalFlags\<close> into a new destination, its field holds the value of the
  defaults if the field is a string, a bool or an integer and its environment variable
  is not declared or not set; it holds the empty list if the field is a list of strings,
  and the empty map if it is a map of strings, whatever the defaults hold there.
\<close>

theorem untouched_flag_keeps_default:
  assumes walk: "collectStructFlags r ev [] [] [] d (Ptr (Type d) []) {} = Inr (fs, flags, seen)"
      and run: "UnmarshalFlags r ev d args (PtrTo (zero d)) = Inr (rest, v)"
      and f: "f \<in> set flags"
      and untouched: "\<forall>t \<in> set args. fst (cut_value (flag_name t)) \<noteq> name f"
  shows "\<exists>dv. field_at (set_field f) d = Some dv
          \<and> (Kind dv \<in> {KString, KBool, KInt} \<and> (env f = [] \<or> map_of ev (env f) = None)
               \<longrightarrow> field_at (set_field f) v = Some dv)
          \<and> (Kind dv = KSlice \<longrightarrow> field_at (set_field f) v = Some (VStringSlice []))
          \<and> (Kind dv = KMap \<longrightarrow> field_at (set_field f) v = Some (VStringMap []))"
proof -
  have "walk_inv d ev [] []" by (simp add: walk_inv_def)
  from walk_registered(1) [OF walk refl _ this] have inv: "walk_inv d ev fs flags" by simp
  from registered_lookup [OF _ _ f, of d ev fs] inv obtain dv fv where
    dv: "field_at (set_field f) d = Some dv" and lf: "leaf_flag f ev dv = Some fv"
    and look: "map_of fs (name f) = Some fv"
    by (auto simp: walk_inv_def)
  from run walk obtain fs' where parse: "Parse fs args = Inr (fs', rest)"
    and sets: "run_sets fs' (rev flags) (zero d) = Inr v"
    by (auto simp: UnmarshalFlags_def split: sum.splits)
  from Parse_untouched [OF parse untouched] look have look': "map_of fs' (name f) = Some fv"
    by simp
  from inv have "distinct (map set_field (rev flags))"
    by (simp add: walk_inv_def rev_map [symmetric])
  from run_sets_written [OF sets this _ look'] f obtain old new where
    old: "field_at (set_field f) (zero d) = Some old" and asg: "assign fv old = Inr new"
    and new: "field_at (set_field f) v = Some new" by auto
  from old dv have z: "old = zero dv" by (simp add: field_at_zero)
  have "Kind dv \<in> {KString, KBool, KInt} \<and> (env f = [] \<or> map_of ev (env f) = None)
               \<longrightarrow> new = dv"
    using lf asg z by (cases dv) (auto simp: readEnv_unset)
  moreover have "Kind dv = KSlice \<longrightarrow> new = VStringSlice []"
    using lf asg z by (cases dv) auto
  moreover have "Kind dv = KMap \<longrightarrow> new = VStringMap []"
    using lf asg z by (cases dv) (auto simp: build_map_def)
  ultimately show ?thesis using dv new by auto
qed

theorem untouched_flag_keeps_default_witness:
  "collectStructFlags Earlier [] [] [] [] defaults_record (Ptr (Type defaults_record) []) {}
     = Inr ([(''string'', stringValue ''default''), (''list'', stringArray [])],
            [\<lparr>name = ''string'', usage = [], env = [], validate = [], set_field = [0]\<rparr>,
             \<lparr>name = ''list'', usage = [], env = [], validate = [], set_field = [1]\<rparr>],
            {})
   \<and> UnmarshalFlags Earlier [] defaults_record [''-list=y''] (PtrTo (zero defaults_record))
     = Inr ([], VStruct ''Flags''
                  [(tagged ''string'' [], VString ''default''), (tagged ''list'' [], VStringSlice [''y''])])
   \<and> UnmarshalFlags Earlier [] defaults_record [] (PtrTo (zero defaults_record))
     = Inr ([], VStruct ''Flags''
                  [(tagged ''string'' [], VString ''default''), (tagged ''list'' [], VStringSlice [])])
   \<and> (\<exists>dv. field_at [0] defaults_record = Some dv \<and> Kind dv = KString
         \<and> field_at [0] (VStruct ''Flags''
                  [(tagged ''string'' [], VString ''default''), (tagged ''list'' [], VStringSlice [''y''])])
             = Some dv)
   \<and> (\<exists>dv. field_at [1] defaults_record = Some dv \<and> Kind dv = KSlice
         \<and> field_at [1] (VStruct ''Flags''
                  [(tagged ''string'' [], VString ''default''), (tagged ''list'' [], VStringSlice [])])
             = Some (VStringSlice []))"
proof -
  let ?fs = "[(''string'', stringValue ''default''), (''list'', stringArray [])]"
  let ?f0 = "\<lparr>name = ''string'', usage = [], env = [], validate = [], set_field = [0]\<rparr>"
  let ?f1 = "\<lparr>name = ''list'', usage = [], env = [], validate = [], set_field = [1]\<rparr>"
  let ?v0 = "VStruct ''Flags''
                  [(tagged ''string'' [], VString ''default''), (tagged ''list'' [], VStringSlice [''y''])]"
  let ?v1 = "VStruct ''Flags''
                  [(tagged ''string'' [], VString ''default''), (tagged ''list'' [], VStringSlice [])]"
  have w: "collectStructFlags Earlier [] [] [] [] defaults_record (Ptr (Type defaults_record) []) {}
     = Inr (?fs, [?f0, ?f1], {})"
    by (simp add: defaults_record_def tagged_def readFlagInfo_def Var_def readEnv_def)
  have r0: "UnmarshalFlags Earlier [] defaults_record [''-list=y''] (PtrTo (zero defaults_record))
     = Inr ([], ?v0)"
    by (simp add: UnmarshalFlags_def defaults_record_def tagged_def readFlagInfo_def Var_def
          readEnv_def flag_name_def cut_value_def run_set_def stringArray_Set_def)
  have r1: "UnmarshalFlags Earlier [] defaults_record [] (PtrTo (zero defaults_record))
     = Inr ([], ?v1)"
    by (simp add: UnmarshalFlags_def defaults_record_def tagged_def readFlagInfo_def Var_def
          readEnv_def run_set_def)
  have m0: "?f0 \<in> set [?f0, ?f1]" and m1: "?f1 \<in> set [?f0, ?f1]" by simp_all
  have u0: "\<forall>t \<in> set [''-list=y'']. fst (cut_value (flag_name t)) \<noteq> name ?f0"
    by (simp add: flag_name_def cut_value_def)
  have u1: "\<forall>t \<in> set []. fst (cut_value (flag_name t)) \<noteq> name ?f1" by simp
  from untouched_flag_keeps_default [OF w r0 m0 u0]
  have c0: "\<exists>dv. field_at [0] defaults_record = Some dv \<and> Kind dv = KString
         \<and> field_at [0] ?v0 = Some dv"
    by (simp add: defaults_record_def)
  from untouched_flag_keeps_default [OF w r1 m1 u1]
  have c1: "\<exists>dv. field_at [1] defaults_record = Some dv \<and> Kind dv = KSlice
         \<and> field_at [1] ?v1 = Some (VStringSlice [])"
    by (simp add: defaults_record_def)
  from w r0 r1 c0 c1 show ?thesis by blast
qed

end
